theory Spec2Isabelle
  imports Main
begin

section \<open>The gift-card format engine of \<^verbatim>\<open>src/main.py\<close>\<close>

text \<open>
  The model follows \<^verbatim>\<open>src/main.py\<close>: the table \<^verbatim>\<open>GIFTCARDS\<close>, the Luhn check,
  \<^verbatim>\<open>validate_format\<close>, \<^verbatim>\<open>generate_one\<close> and the route \<^verbatim>\<open>/generate\<close>.

  Strings are lists of 8-bit characters. A voucher or a PIN is read character by
  character: the model covers the strings whose characters have a code point below 256,
  and among those Python's \<^verbatim>\<open>\d\<close> and \<^verbatim>\<open>int()\<close> accept exactly
  \<^verbatim>\<open>0\<close> to \<^verbatim>\<open>9\<close>. A card name only takes part in the dictionary lookup, and
  is given by its UTF-8 bytes (three names of the table hold U+2019, bytes E2 80 99).

  Every exception the code can raise is a value of the type \<open>error\<close>, and a function
  that can raise returns \<open>error + 'a\<close>. The random draws are an argument of the
  functions that draw.

  The accuracy is a Python float that only takes the values 100, 90, 60, 50, 40, 10 and
  0, all computed exactly; it is modelled as an integer. Time stamps and the time-zone
  label are read from the clock and a constant, and are left out of the records.
\<close>

subsection \<open>Errors\<close>

datatype error =
    HTTPException int string    \<comment> \<open>\<^verbatim>\<open>raise HTTPException(404, ...)\<close>: the spec's NotFound\<close>
  | RequestValidationError      \<comment> \<open>pydantic rejects the request body: the spec's InvalidArgument\<close>
  | ValueError                  \<comment> \<open>\<^verbatim>\<open>int(d)\<close> on a character that is no digit\<close>
  | KeyError                    \<comment> \<open>\<^verbatim>\<open>GIFTCARDS[card_name]\<close> on a missing key\<close>
  | IndexError                  \<comment> \<open>\<^verbatim>\<open>random.choice\<close> on an empty sequence\<close>

definition bind :: "error + 'a \<Rightarrow> ('a \<Rightarrow> error + 'b) \<Rightarrow> error + 'b" where
  "bind m f = (case m of Inl e \<Rightarrow> Inl e | Inr x \<Rightarrow> f x)"

subsection \<open>Card formats\<close>

datatype len_spec =
    IntLen int           \<comment> \<open>a single length\<close>
  | TupleLen "int list"  \<comment> \<open>a tuple of lengths, \<^verbatim>\<open>isinstance(v_len, tuple)\<close>\<close>

datatype regex =
    Digits nat nat       \<comment> \<open>\<^verbatim>\<open>r"^\d{m,n}$"\<close>; \<^verbatim>\<open>r"^\d{m}$"\<close> is \<open>Digits m m\<close>\<close>

record card_cfg =
  voucher_len :: len_spec
  pin_len :: len_spec
  prefix :: string
  luhn :: bool
  voucher_regex :: regex
  pin_regex :: regex

definition apostrophe :: string where
  "apostrophe = [CHR 0xE2, CHR 0x80, CHR 0x99]"

definition GIFTCARDS_items :: "(string \<times> card_cfg) list" where
  "GIFTCARDS_items = [
    (''Costco Shop Card'',
      \<lparr>voucher_len = IntLen 19, pin_len = IntLen 4, prefix = ''60'', luhn = False,
       voucher_regex = Digits 19 19, pin_regex = Digits 4 4\<rparr>),
    (''The Home Depot eGift Card'',
      \<lparr>voucher_len = IntLen 19, pin_len = IntLen 4, prefix = ''604'', luhn = False,
       voucher_regex = Digits 19 19, pin_regex = Digits 4 4\<rparr>),
    (''Lowe'' @ apostrophe @ ''s eGift Card'',
      \<lparr>voucher_len = IntLen 19, pin_len = IntLen 4, prefix = ''603'', luhn = False,
       voucher_regex = Digits 19 19, pin_regex = Digits 4 4\<rparr>),
    (''Vanilla Visa Gift Card'',
      \<lparr>voucher_len = IntLen 16, pin_len = TupleLen [3, 4], prefix = ''4'', luhn = True,
       voucher_regex = Digits 16 16, pin_regex = Digits 3 4\<rparr>),
    (''Visa Prepaid Gift Card'',
      \<lparr>voucher_len = IntLen 16, pin_len = TupleLen [3, 4], prefix = ''4'', luhn = True,
       voucher_regex = Digits 16 16, pin_regex = Digits 3 4\<rparr>),
    (''Mastercard Prepaid Gift Card'',
      \<lparr>voucher_len = IntLen 16, pin_len = TupleLen [3, 4], prefix = ''5'', luhn = True,
       voucher_regex = Digits 16 16, pin_regex = Digits 3 4\<rparr>),
    (''OneVanilla Prepaid'',
      \<lparr>voucher_len = IntLen 16, pin_len = IntLen 3, prefix = ''4'', luhn = True,
       voucher_regex = Digits 16 16, pin_regex = Digits 3 3\<rparr>),
    (''Sam'' @ apostrophe @ ''s Club eGift Card'',
      \<lparr>voucher_len = IntLen 16, pin_len = IntLen 4, prefix = ''6014'', luhn = False,
       voucher_regex = Digits 16 16, pin_regex = Digits 4 4\<rparr>),
    (''Walmart eGift Card'',
      \<lparr>voucher_len = IntLen 16, pin_len = IntLen 4, prefix = ''6014'', luhn = False,
       voucher_regex = Digits 16 16, pin_regex = Digits 4 4\<rparr>),
    (''Target eGift Card'',
      \<lparr>voucher_len = TupleLen [15, 16], pin_len = IntLen 4, prefix = ''04'', luhn = False,
       voucher_regex = Digits 15 16, pin_regex = Digits 4 4\<rparr>),
    (''Best Buy eGift Card'',
      \<lparr>voucher_len = IntLen 16, pin_len = IntLen 4, prefix = ''60'', luhn = False,
       voucher_regex = Digits 16 16, pin_regex = Digits 4 4\<rparr>),
    (''Macy'' @ apostrophe @ ''s eGift Card'',
      \<lparr>voucher_len = IntLen 16, pin_len = IntLen 4, prefix = ''60'', luhn = False,
       voucher_regex = Digits 16 16, pin_regex = Digits 4 4\<rparr>)]"

definition GIFTCARDS :: "string \<rightharpoonup> card_cfg" where
  "GIFTCARDS = map_of GIFTCARDS_items"

subsection \<open>Characters, \<^verbatim>\<open>int\<close>, \<^verbatim>\<open>str\<close> and \<^verbatim>\<open>re.match\<close>\<close>

definition digit_chars :: string where
  "digit_chars = ''0123456789''"

definition is_digit :: "char \<Rightarrow> bool" where
  "is_digit c = (c \<in> set digit_chars)"

definition int_of_char :: "char \<Rightarrow> error + int" where
  \<comment> \<open>\<^verbatim>\<open>int(d)\<close> for a string \<open>d\<close> of one character\<close>
  "int_of_char d = (if is_digit d then Inr (int (of_char d) - 48) else Inl ValueError)"

fun str_nat :: "nat \<Rightarrow> string" where
  "str_nat n =
     (if n < 10 then [digit_chars ! n]
      else str_nat (n div 10) @ [digit_chars ! (n mod 10)])"

declare str_nat.simps [simp del]

definition str :: "int \<Rightarrow> string" where
  "str i = (if i < 0 then CHR ''-'' # str_nat (nat (- i)) else str_nat (nat i))"

definition strip_final_newline :: "string \<Rightarrow> string" where
  "strip_final_newline s = (if s \<noteq> [] \<and> last s = CHR 0x0A then butlast s else s)"

fun re_match :: "regex \<Rightarrow> string \<Rightarrow> bool" where
  \<comment> \<open>\<^verbatim>\<open>bool(re.match(r"^\d{m,n}$", s))\<close>. Without \<^verbatim>\<open>re.MULTILINE\<close>, Python's
      \<^verbatim>\<open>$\<close> matches at the end of the string and also just before a newline that is
      the last character of the string.\<close>
  "re_match (Digits m n) s =
     (let body = strip_final_newline s
      in list_all is_digit body \<and> m \<le> length body \<and> length body \<le> n)"

subsection \<open>Luhn check\<close>

fun digits_of :: "string \<Rightarrow> error + int list" where
  \<comment> \<open>\<^verbatim>\<open>[int(d) for d in number]\<close>\<close>
  "digits_of [] = Inr []"
| "digits_of (d # ds) =
     bind (int_of_char d) (\<lambda>x. bind (digits_of ds) (\<lambda>xs. Inr (x # xs)))"

function luhn_loop :: "int \<Rightarrow> int list \<Rightarrow> int list" where
  \<comment> \<open>the loop \<^verbatim>\<open>for i in range(len(digits) - 2, -1, -2)\<close>, entered at index \<open>i\<close>\<close>
  "luhn_loop i digits =
     (if i < 0 then digits
      else let d = digits ! nat i * 2;
               d' = (if d > 9 then d - 9 else d)
           in luhn_loop (i - 2) (digits[nat i := d']))"
  by pat_completeness auto
termination
  by (relation "measure (\<lambda>(i, digits). nat (i + 1))") auto

declare luhn_loop.simps [simp del]

definition luhn_checksum :: "string \<Rightarrow> error + int" where
  "luhn_checksum number =
     bind (digits_of number) (\<lambda>digits.
       Inr ((10 - sum_list (luhn_loop (int (length digits) - 2) digits) mod 10) mod 10))"

definition apply_luhn :: "string \<Rightarrow> error + string" where
  "apply_luhn base = bind (luhn_checksum (base @ ''0'')) (\<lambda>c. Inr (base @ str c))"

subsection \<open>Validation\<close>

record result =
  valid :: bool
  accuracy :: int

definition luhn_ok_of :: "card_cfg \<Rightarrow> string \<Rightarrow> error + bool" where
  \<comment> \<open>lines 142 to 146: the value of \<^verbatim>\<open>luhn_ok\<close> after the \<^verbatim>\<open>if\<close>\<close>
  "luhn_ok_of cfg voucher =
     (if luhn cfg \<and> length voucher = 16
      then bind (luhn_checksum (butlast voucher @ ''0'')) (\<lambda>expected.
           bind (int_of_char (last voucher)) (\<lambda>d. Inr (d = expected)))
      else Inr True)"

definition score :: "card_cfg \<Rightarrow> bool \<Rightarrow> bool \<Rightarrow> bool \<Rightarrow> result" where
  \<comment> \<open>lines 148 to 156\<close>
  "score cfg v_match p_match luhn_ok =
     (let accuracy0 = 100;
          accuracy1 = (if \<not> v_match then accuracy0 - 50 else accuracy0);
          accuracy2 = (if \<not> p_match then accuracy1 - 40 else accuracy1);
          accuracy3 = (if luhn cfg \<and> \<not> luhn_ok then accuracy2 - 10 else accuracy2)
      in \<lparr>valid = v_match \<and> p_match \<and> (\<not> luhn cfg \<or> luhn_ok),
          accuracy = max 0 accuracy3\<rparr>)"

definition validate_format :: "string \<Rightarrow> string \<Rightarrow> string \<Rightarrow> error + result" where
  "validate_format card_name voucher pin =
     (case GIFTCARDS card_name of
        None \<Rightarrow> Inl (HTTPException 404 (''Card not supported: '' @ card_name))
      | Some cfg \<Rightarrow>
          let v_match = re_match (voucher_regex cfg) voucher;
              p_match = re_match (pin_regex cfg) pin
          in bind (luhn_ok_of cfg voucher) (\<lambda>luhn_ok.
               Inr (score cfg v_match p_match luhn_ok)))"

subsection \<open>Generation\<close>

text \<open>
  \<^verbatim>\<open>random.seed()\<close> reseeds the generator from the system's entropy, so the draws of
  one call of \<^verbatim>\<open>generate_one\<close> are arbitrary. They are read from a sequence of
  natural numbers given as an argument: each draw takes the head, reduced modulo the
  size of the population, and leaves the tail.
\<close>

type_synonym rng = "nat \<Rightarrow> nat"

definition choice :: "'a list \<Rightarrow> rng \<Rightarrow> error + 'a \<times> rng" where
  \<comment> \<open>\<^verbatim>\<open>random.choice(seq)\<close>\<close>
  "choice seq g =
     (if seq = [] then Inl IndexError
      else Inr (seq ! (g 0 mod length seq), \<lambda>i. g (Suc i)))"

fun choices :: "'a list \<Rightarrow> nat \<Rightarrow> rng \<Rightarrow> error + 'a list \<times> rng" where
  \<comment> \<open>\<^verbatim>\<open>random.choices(population, k=k)\<close>\<close>
  "choices population 0 g = Inr ([], g)"
| "choices population (Suc k) g =
     bind (choice population g) (\<lambda>(x, g').
     bind (choices population k g') (\<lambda>(xs, g'').
       Inr (x # xs, g'')))"

fun pick_len :: "len_spec \<Rightarrow> rng \<Rightarrow> error + int \<times> rng" where
  \<comment> \<open>\<^verbatim>\<open>if isinstance(v_len, tuple): v_len = random.choice(v_len)\<close>\<close>
  "pick_len (IntLen n) g = Inr (n, g)"
| "pick_len (TupleLen ns) g = choice ns g"

definition slice_to :: "'a list \<Rightarrow> int \<Rightarrow> 'a list" where
  \<comment> \<open>\<^verbatim>\<open>s[:n]\<close>; a negative \<open>n\<close> counts from the end\<close>
  "slice_to s n = (if 0 \<le> n then take (nat n) s else take (length s - nat (- n)) s)"

record card = result +
  card_name :: string
  voucher :: string
  pin :: string

definition generate_one :: "string \<Rightarrow> rng \<Rightarrow> error + card" where
  "generate_one name g =
     (case GIFTCARDS name of
        None \<Rightarrow> Inl KeyError
      | Some cfg \<Rightarrow>
          bind (pick_len (voucher_len cfg) g) (\<lambda>(v_len, g1).
          let base_len = v_len - int (length (prefix cfg)) in
          bind (choices digit_chars (nat (max 0 base_len)) g1) (\<lambda>(ds, g2).
          let base0 = prefix cfg @ ds;
              base = (if int (length base0) > v_len then slice_to base0 v_len else base0) in
          bind (if luhn cfg \<and> length base \<ge> 15 then apply_luhn (butlast base) else Inr base)
            (\<lambda>voucher0.
          bind (if int (length voucher0) < v_len
                then bind (choice digit_chars g2) (\<lambda>(c, g3). Inr (voucher0 @ [c], g3))
                else Inr (voucher0, g2)) (\<lambda>(voucher1, g4).
          bind (pick_len (pin_len cfg) g4) (\<lambda>(p_len, g5).
          bind (choices digit_chars (nat p_len) g5) (\<lambda>(pin1, g6).
            Inr \<lparr>valid = True, accuracy = 100,
                 card_name = name, voucher = voucher1, pin = pin1\<rparr>)))))))"

subsection \<open>Routes\<close>

record GenerateRequest =
  req_card_name :: string
  count :: int

definition parse_GenerateRequest :: "string \<Rightarrow> int \<Rightarrow> error + GenerateRequest" where
  \<comment> \<open>\<^verbatim>\<open>count: int = Field(1, ge=1, le=1000)\<close>: the request is validated before
      the route's function runs\<close>
  "parse_GenerateRequest name n =
     (if 1 \<le> n \<and> n \<le> 1000 then Inr \<lparr>req_card_name = name, count = n\<rparr>
      else Inl RequestValidationError)"

fun collect :: "(error + 'a) list \<Rightarrow> error + 'a list" where
  \<comment> \<open>a list comprehension whose element may raise: the first error ends it\<close>
  "collect [] = Inr []"
| "collect (m # ms) = bind m (\<lambda>x. bind (collect ms) (\<lambda>xs. Inr (x # xs)))"

definition generate_cards :: "GenerateRequest \<Rightarrow> (nat \<Rightarrow> rng) \<Rightarrow> error + card list" where
  \<comment> \<open>\<open>seeds i\<close> is the sequence of draws that follows the \<open>i\<close>-th reseeding\<close>
  "generate_cards req seeds =
     (if GIFTCARDS (req_card_name req) = None
      then Inl (HTTPException 404 (''Card not supported: '' @ req_card_name req))
      else collect (map (\<lambda>i. generate_one (req_card_name req) (seeds i))
                        [0 ..< nat (count req)]))"

definition post_generate :: "string \<Rightarrow> int \<Rightarrow> (nat \<Rightarrow> rng) \<Rightarrow> error + card list" where
  \<comment> \<open>\<^verbatim>\<open>POST /generate\<close> with the body \<^verbatim>\<open>{"card_name": name, "count": n}\<close>\<close>
  "post_generate name n seeds =
     bind (parse_GenerateRequest name n) (\<lambda>req. generate_cards req seeds)"

subsection \<open>Well-formed formats\<close>

text \<open>
  What the proofs use of the table: the lengths a format declares, the lengths a pattern
  accepts, and that prefix, lengths and patterns of a format fit together.
\<close>

fun lens :: "len_spec \<Rightarrow> int list" where
  "lens (IntLen n) = [n]"
| "lens (TupleLen ns) = ns"

fun accepts_len :: "regex \<Rightarrow> int \<Rightarrow> bool" where
  "accepts_len (Digits m n) k = (int m \<le> k \<and> k \<le> int n)"

definition wf_cfg :: "card_cfg \<Rightarrow> bool" where
  "wf_cfg cfg =
     (list_all is_digit (prefix cfg) \<and>
      lens (voucher_len cfg) \<noteq> [] \<and>
      list_all (\<lambda>v. int (length (prefix cfg)) \<le> v \<and> accepts_len (voucher_regex cfg) v)
        (lens (voucher_len cfg)) \<and>
      lens (pin_len cfg) \<noteq> [] \<and>
      list_all (\<lambda>p. 0 \<le> p \<and> accepts_len (pin_regex cfg) p) (lens (pin_len cfg)) \<and>
      (if luhn cfg then voucher_len cfg = IntLen 16 else True))"

section \<open>Facts about the model\<close>

subsection \<open>Errors\<close>

lemma bind_Inr [simp]: "bind (Inr x) f = f x"
  by (simp add: bind_def)

lemma bind_Inl [simp]: "bind (Inl e) f = Inl e"
  by (simp add: bind_def)

lemma bind_eq_Inr: "bind m f = Inr y \<longleftrightarrow> (\<exists>x. m = Inr x \<and> f x = Inr y)"
  by (cases m) simp_all

subsection \<open>The table\<close>

lemma GIFTCARDS_items_wf: "list_all (\<lambda>item. wf_cfg (snd item)) GIFTCARDS_items"
  by code_simp

lemma GIFTCARDS_wf: "GIFTCARDS name = Some cfg \<Longrightarrow> wf_cfg cfg"
proof -
  assume "GIFTCARDS name = Some cfg"
  then have "(name, cfg) \<in> set GIFTCARDS_items"
    unfolding GIFTCARDS_def by (rule map_of_SomeD)
  with GIFTCARDS_items_wf show ?thesis
    unfolding list_all_iff by force
qed

lemma wf_cfg_voucher_len:
  "wf_cfg cfg \<Longrightarrow> v \<in> set (lens (voucher_len cfg)) \<Longrightarrow>
     int (length (prefix cfg)) \<le> v \<and> accepts_len (voucher_regex cfg) v"
  by (simp add: wf_cfg_def list_all_iff)

lemma wf_cfg_pin_len:
  "wf_cfg cfg \<Longrightarrow> p \<in> set (lens (pin_len cfg)) \<Longrightarrow> 0 \<le> p \<and> accepts_len (pin_regex cfg) p"
  by (simp add: wf_cfg_def list_all_iff)

lemma wf_cfg_luhn: "wf_cfg cfg \<Longrightarrow> luhn cfg \<Longrightarrow> voucher_len cfg = IntLen 16"
  by (simp add: wf_cfg_def split: if_splits)

subsection \<open>Digits\<close>

lemma length_digit_chars: "length digit_chars = 10"
  by (simp add: digit_chars_def)

lemma is_digit_zero: "is_digit CHR ''0''"
  by (simp add: is_digit_def digit_chars_def)

lemma is_digit_nth: "i < 10 \<Longrightarrow> is_digit (digit_chars ! i)"
  unfolding is_digit_def by (rule nth_mem) (simp add: length_digit_chars)

lemma is_digit_not_newline: "is_digit c \<Longrightarrow> c \<noteq> CHR 0x0A"
  by (auto simp: is_digit_def digit_chars_def)

lemma digits_butlast: "list_all is_digit s \<Longrightarrow> list_all is_digit (butlast s)"
  by (induction s) simp_all

lemma digits_last: "list_all is_digit s \<Longrightarrow> s \<noteq> [] \<Longrightarrow> is_digit (last s)"
  by (induction s) simp_all

lemma below_ten:
  "i < (10::nat) \<Longrightarrow> i = 0 \<or> i = 1 \<or> i = 2 \<or> i = 3 \<or> i = 4 \<or> i = 5 \<or> i = 6 \<or> i = 7 \<or> i = 8 \<or> i = 9"
  by arith

lemma int_of_char_digit: "is_digit c \<Longrightarrow> \<exists>d. int_of_char c = Inr d"
  by (simp add: int_of_char_def)

lemma int_of_char_nth: "i < 10 \<Longrightarrow> int_of_char (digit_chars ! i) = Inr (int i)"
  by (drule below_ten) (elim disjE; simp add: int_of_char_def is_digit_def digit_chars_def)

lemma str_digit: "0 \<le> k \<Longrightarrow> k < 10 \<Longrightarrow> str k = [digit_chars ! nat k]"
  by (simp add: str_def str_nat.simps)

lemma strip_final_newline_digits: "list_all is_digit s \<Longrightarrow> strip_final_newline s = s"
  using digits_last [of s] is_digit_not_newline [of "last s"]
  by (auto simp: strip_final_newline_def)

lemma re_match_digits:
  "list_all is_digit s \<Longrightarrow> accepts_len rx (int (length s)) \<Longrightarrow> re_match rx s"
  by (cases rx) (simp add: strip_final_newline_digits)

subsection \<open>Luhn check\<close>

lemma digits_of_digits:
  "list_all is_digit s \<Longrightarrow> \<exists>xs. digits_of s = Inr xs"
  by (induction s) (auto simp: int_of_char_def)

lemma luhn_checksum_digits:
  "list_all is_digit s \<Longrightarrow> \<exists>k. luhn_checksum s = Inr k \<and> 0 \<le> k \<and> k < 10"
  using digits_of_digits [of s] by (auto simp: luhn_checksum_def)

lemma apply_luhn_digits:
  assumes "list_all is_digit b"
  shows "\<exists>c k. apply_luhn b = Inr (b @ [c]) \<and> is_digit c \<and>
           luhn_checksum (b @ ''0'') = Inr k \<and> int_of_char c = Inr k"
proof -
  from assms have "list_all is_digit (b @ ''0'')"
    by (simp add: is_digit_zero)
  from luhn_checksum_digits [OF this] obtain k
    where k: "luhn_checksum (b @ ''0'') = Inr k" "0 \<le> k" "k < 10"
    by blast
  then have n: "nat k < 10"
    by simp
  from k have "apply_luhn b = Inr (b @ [digit_chars ! nat k])"
    by (simp add: apply_luhn_def str_digit)
  moreover from k int_of_char_nth [OF n] have "int_of_char (digit_chars ! nat k) = Inr k"
    by simp
  ultimately show ?thesis
    using k is_digit_nth [OF n] by blast
qed

subsection \<open>Validation\<close>

lemma validate_format_known:
  assumes "GIFTCARDS name = Some cfg"
  shows "validate_format name v p =
           bind (luhn_ok_of cfg v) (\<lambda>luhn_ok.
             Inr (score cfg (re_match (voucher_regex cfg) v)
                            (re_match (pin_regex cfg) p) luhn_ok))"
  using assms by (simp add: validate_format_def)

lemma luhn_ok_of_skipped: "length v \<noteq> 16 \<Longrightarrow> luhn_ok_of cfg v = Inr True"
  by (simp add: luhn_ok_of_def)

lemma luhn_ok_of_16:
  assumes "luhn cfg" and "length v = 16"
    and "luhn_checksum (butlast v @ ''0'') = Inr expected"
    and "int_of_char (last v) = Inr d"
  shows "luhn_ok_of cfg v = Inr (d = expected)"
  using assms by (simp add: luhn_ok_of_def)

lemma luhn_ok_of_generated:
  assumes "luhn cfg \<longrightarrow>
             (\<exists>k. luhn_checksum (butlast v @ ''0'') = Inr k \<and> int_of_char (last v) = Inr k)"
  shows "luhn_ok_of cfg v = Inr True"
proof (cases "luhn cfg \<and> length v = 16")
  case True
  with assms obtain k
    where "luhn_checksum (butlast v @ ''0'') = Inr k" "int_of_char (last v) = Inr k"
    by blast
  with True luhn_ok_of_16 [of cfg v k k] show ?thesis
    by simp
next
  case False
  then show ?thesis
    unfolding luhn_ok_of_def by (rule if_not_P)
qed

lemma accuracy_score:
  "accuracy (score cfg vm pm ok) =
     100 - (if vm then 0 else 50) - (if pm then 0 else 40)
         - (if luhn cfg \<and> \<not> ok then 10 else 0)"
  by (simp add: score_def)

lemma valid_score: "valid (score cfg vm pm ok) = (vm \<and> pm \<and> (\<not> luhn cfg \<or> ok))"
  by (simp add: score_def)

subsection \<open>Generation\<close>

lemma choice_nonempty:
  "seq \<noteq> [] \<Longrightarrow> \<exists>x. choice seq g = Inr (x, \<lambda>i. g (Suc i)) \<and> x \<in> set seq"
  by (simp add: choice_def)

lemma pick_len_lens:
  "lens ls \<noteq> [] \<Longrightarrow> \<exists>n g'. pick_len ls g = Inr (n, g') \<and> n \<in> set (lens ls)"
proof (cases ls)
  case (IntLen n)
  then show ?thesis by simp
next
  case (TupleLen ns)
  assume "lens ls \<noteq> []"
  with TupleLen choice_nonempty [of ns g] show ?thesis
    by auto
qed

lemma choice_digit:
  "\<exists>c. choice digit_chars g = Inr (c, \<lambda>i. g (Suc i)) \<and> is_digit c"
  using choice_nonempty [of digit_chars g] by (auto simp: is_digit_def digit_chars_def)

lemma choices_digits:
  "\<exists>ds g'. choices digit_chars k g = Inr (ds, g') \<and> length ds = k \<and> list_all is_digit ds"
proof (induction k arbitrary: g)
  case 0
  show ?case by simp
next
  case (Suc k)
  obtain c where c: "choice digit_chars g = Inr (c, \<lambda>i. g (Suc i))" "is_digit c"
    using choice_digit by blast
  from Suc [of "\<lambda>i. g (Suc i)"] obtain ds g'
    where ds: "choices digit_chars k (\<lambda>i. g (Suc i)) = Inr (ds, g')" "length ds = k"
      "list_all is_digit ds"
    by blast
  from c ds show ?case
    by simp
qed

lemma generate_one_known:
  assumes known: "GIFTCARDS name = Some cfg"
  shows "\<exists>v_len g1 p_len c.
           pick_len (voucher_len cfg) g = Inr (v_len, g1) \<and>
           v_len \<in> set (lens (voucher_len cfg)) \<and>
           generate_one name g = Inr c \<and>
           list_all is_digit (voucher c) \<and> int (length (voucher c)) = v_len \<and>
           list_all is_digit (pin c) \<and> int (length (pin c)) = p_len \<and>
           p_len \<in> set (lens (pin_len cfg)) \<and>
           (luhn cfg \<longrightarrow>
              (\<exists>k. luhn_checksum (butlast (voucher c) @ ''0'') = Inr k \<and>
                   int_of_char (last (voucher c)) = Inr k)) \<and>
           valid c \<and> accuracy c = 100 \<and> card_name c = name"
proof -
  from known have wf: "wf_cfg cfg"
    by (rule GIFTCARDS_wf)
  then have "lens (voucher_len cfg) \<noteq> []" and "lens (pin_len cfg) \<noteq> []"
    by (simp_all add: wf_cfg_def)
  from pick_len_lens [OF this(1)] obtain v_len g1
    where v_len: "pick_len (voucher_len cfg) g = Inr (v_len, g1)"
      and v_in: "v_len \<in> set (lens (voucher_len cfg))"
    by blast
  from wf_cfg_voucher_len [OF wf v_in]
  have pre: "int (length (prefix cfg)) \<le> v_len"
    and v_acc: "accepts_len (voucher_regex cfg) v_len"
    by simp_all
  obtain ds g2
    where ds: "choices digit_chars (nat (max 0 (v_len - int (length (prefix cfg))))) g1
                 = Inr (ds, g2)"
      and ds_len: "length ds = nat (max 0 (v_len - int (length (prefix cfg))))"
      and ds_dig: "list_all is_digit ds"
    using choices_digits by blast
  define base where "base = prefix cfg @ ds"
  from pre ds_len have base_len: "int (length base) = v_len"
    by (simp add: base_def)
  from wf ds_dig have base_dig: "list_all is_digit base"
    by (simp add: base_def wf_cfg_def)
  have "\<exists>voucher0.
          (if luhn cfg \<and> length base \<ge> 15 then apply_luhn (butlast base) else Inr base)
             = Inr voucher0 \<and>
          length voucher0 = length base \<and> list_all is_digit voucher0 \<and>
          (luhn cfg \<and> length base \<ge> 15 \<longrightarrow>
             (\<exists>k. luhn_checksum (butlast voucher0 @ ''0'') = Inr k \<and>
                  int_of_char (last voucher0) = Inr k))"
  proof (cases "luhn cfg \<and> length base \<ge> 15")
    case True
    then have ne: "base \<noteq> []"
      by auto
    from apply_luhn_digits [OF digits_butlast [OF base_dig]] obtain c k
      where "apply_luhn (butlast base) = Inr (butlast base @ [c])" "is_digit c"
        "luhn_checksum (butlast base @ ''0'') = Inr k" "int_of_char c = Inr k"
      by blast
    with True ne base_dig show ?thesis
      by (simp add: digits_butlast)
  next
    case False
    with base_dig show ?thesis
      by auto
  qed
  then obtain voucher0
    where v0: "(if luhn cfg \<and> length base \<ge> 15 then apply_luhn (butlast base) else Inr base)
                 = Inr voucher0"
      and v0_len: "length voucher0 = length base"
      and v0_dig: "list_all is_digit voucher0"
      and v0_luhn: "luhn cfg \<and> length base \<ge> 15 \<longrightarrow>
             (\<exists>k. luhn_checksum (butlast voucher0 @ ''0'') = Inr k \<and>
                  int_of_char (last voucher0) = Inr k)"
    by blast
  from pick_len_lens [OF \<open>lens (pin_len cfg) \<noteq> []\<close>] obtain p_len g5
    where p_len: "pick_len (pin_len cfg) g2 = Inr (p_len, g5)"
      and p_in: "p_len \<in> set (lens (pin_len cfg))"
    by blast
  obtain pin1 g6
    where pin1: "choices digit_chars (nat p_len) g5 = Inr (pin1, g6)"
      and pin1_len: "length pin1 = nat p_len"
      and pin1_dig: "list_all is_digit pin1"
    using choices_digits by blast
  from wf_cfg_pin_len [OF wf p_in] pin1_len have pin_len: "int (length pin1) = p_len"
    by simp
  have trunc: "(if int (length (prefix cfg @ ds)) > v_len
                then slice_to (prefix cfg @ ds) v_len else prefix cfg @ ds) = base"
    using base_len by (simp add: base_def)
  have nopad: "(if int (length voucher0) < v_len
                then bind (choice digit_chars g2) (\<lambda>(c, g3). Inr (voucher0 @ [c], g3))
                else Inr (voucher0, g2)) = Inr (voucher0, g2)"
    using base_len v0_len by simp
  have gen: "generate_one name g
          = Inr \<lparr>valid = True, accuracy = 100, card_name = name, voucher = voucher0, pin = pin1\<rparr>"
    by (simp only: generate_one_def known option.case v_len bind_Inr prod.case Let_def
          ds trunc v0 nopad p_len pin1)
  have "luhn cfg \<longrightarrow> length base \<ge> 15"
  proof
    assume "luhn cfg"
    with wf v_in have "v_len = 16"
      by (simp add: wf_cfg_luhn)
    with base_len show "length base \<ge> 15"
      by simp
  qed
  with v0_luhn have "luhn cfg \<longrightarrow>
      (\<exists>k. luhn_checksum (butlast voucher0 @ ''0'') = Inr k \<and> int_of_char (last voucher0) = Inr k)"
    by blast
  with v_len v_in gen v0_dig v0_len base_len pin1_dig pin_len p_in show ?thesis
    by simp
qed

lemma generate_one_returns: "GIFTCARDS name = Some cfg \<Longrightarrow> \<exists>c. generate_one name g = Inr c"
  using generate_one_known [of name cfg g] by blast

lemma collect_all_Inr:
  "list_all (\<lambda>m. \<exists>x. m = Inr x) ms \<Longrightarrow>
     \<exists>xs. collect ms = Inr xs \<and> length xs = length ms \<and> map Inr xs = ms"
  by (induction ms) auto

lemma generate_cards_known:
  assumes "GIFTCARDS (req_card_name req) = Some cfg"
  shows "\<exists>cards. generate_cards req seeds = Inr cards \<and>
           length cards = nat (count req) \<and>
           (\<forall>i < nat (count req). generate_one (req_card_name req) (seeds i) = Inr (cards ! i))"
proof -
  let ?ms = "map (\<lambda>i. generate_one (req_card_name req) (seeds i)) [0 ..< nat (count req)]"
  have "list_all (\<lambda>m. \<exists>x. m = Inr x) ?ms"
    using generate_one_returns [OF assms] by (simp add: list_all_iff)
  from collect_all_Inr [OF this] obtain cards
    where c: "collect ?ms = Inr cards" and l: "length cards = length ?ms"
      and m: "map Inr cards = ?ms"
    by blast
  have "generate_one (req_card_name req) (seeds i) = Inr (cards ! i)"
    if "i < nat (count req)" for i
  proof -
    from that have "generate_one (req_card_name req) (seeds i) = ?ms ! i"
      by simp
    also have "\<dots> = map Inr cards ! i"
      by (simp only: m)
    also from that l have "\<dots> = Inr (cards ! i)"
      by simp
    finally show ?thesis .
  qed
  with c l assms show ?thesis
    by (simp add: generate_cards_def)
qed

section \<open>The claims\<close>

subsection \<open>C1: generated cards validate\<close>

text \<open>
  Claim C1. For every product of the table and every sequence of draws,
  \<open>generate_one\<close> returns a card; its voucher and PIN match the product's patterns and
  \<open>validate_format\<close> for the same product returns \<open>valid = True\<close> with accuracy 100.
  For a product that requires the checksum the voucher has 16 characters and its last
  digit is the check digit recomputed over the first 15 characters followed by
  \<^verbatim>\<open>0\<close>.
\<close>

theorem generate_then_validate:
  assumes "GIFTCARDS name = Some cfg"
  shows "\<exists>c. generate_one name g = Inr c \<and> valid c \<and> accuracy c = 100 \<and>
           re_match (voucher_regex cfg) (voucher c) \<and>
           re_match (pin_regex cfg) (pin c) \<and>
           validate_format name (voucher c) (pin c) = Inr \<lparr>valid = True, accuracy = 100\<rparr> \<and>
           (luhn cfg \<longrightarrow>
              length (voucher c) = 16 \<and>
              (\<exists>k. luhn_checksum (butlast (voucher c) @ ''0'') = Inr k \<and>
                   int_of_char (last (voucher c)) = Inr k))"
proof -
  from assms have wf: "wf_cfg cfg"
    by (rule GIFTCARDS_wf)
  from generate_one_known [OF assms, of g] obtain v_len g1 p_len c
    where v_in: "v_len \<in> set (lens (voucher_len cfg))"
      and gen: "generate_one name g = Inr c"
      and v_dig: "list_all is_digit (voucher c)" and v_len: "int (length (voucher c)) = v_len"
      and p_dig: "list_all is_digit (pin c)" and p_len: "int (length (pin c)) = p_len"
      and p_in: "p_len \<in> set (lens (pin_len cfg))"
      and check: "luhn cfg \<longrightarrow>
              (\<exists>k. luhn_checksum (butlast (voucher c) @ ''0'') = Inr k \<and>
                   int_of_char (last (voucher c)) = Inr k)"
      and fixed: "valid c" "accuracy c = 100"
    by blast
  from wf_cfg_voucher_len [OF wf v_in] v_len v_dig
  have vm: "re_match (voucher_regex cfg) (voucher c)"
    by (simp add: re_match_digits)
  from wf_cfg_pin_len [OF wf p_in] p_len p_dig
  have pm: "re_match (pin_regex cfg) (pin c)"
    by (simp add: re_match_digits)
  have ok: "luhn_ok_of cfg (voucher c) = Inr True"
    using check by (rule luhn_ok_of_generated)
  have val: "validate_format name (voucher c) (pin c) = Inr \<lparr>valid = True, accuracy = 100\<rparr>"
    by (simp add: validate_format_known [OF assms] ok vm pm score_def)
  have len: "luhn cfg \<longrightarrow> length (voucher c) = 16"
  proof
    assume "luhn cfg"
    with wf v_in have "v_len = 16"
      by (simp add: wf_cfg_luhn)
    with v_len show "length (voucher c) = 16"
      by simp
  qed
  from gen fixed vm pm val len check show ?thesis
    by blast
qed

theorem generate_then_validate_witness:
  "\<exists>cfg c. GIFTCARDS ''Vanilla Visa Gift Card'' = Some cfg \<and> luhn cfg \<and>
     c = \<lparr>valid = True, accuracy = 100, card_name = ''Vanilla Visa Gift Card'',
          voucher = ''4777777777777778'', pin = ''7777''\<rparr> \<and>
     generate_one ''Vanilla Visa Gift Card'' (\<lambda>i. 7) = Inr c \<and>
     validate_format ''Vanilla Visa Gift Card'' (voucher c) (pin c)
       = Inr \<lparr>valid = True, accuracy = 100\<rparr> \<and>
     length (voucher c) = 16 \<and>
     (\<exists>k. luhn_checksum (butlast (voucher c) @ ''0'') = Inr k \<and>
          int_of_char (last (voucher c)) = Inr k)"
proof -
  obtain cfg where k: "GIFTCARDS ''Vanilla Visa Gift Card'' = Some cfg" and l: "luhn cfg"
    by (simp add: GIFTCARDS_def GIFTCARDS_items_def)
  have e: "generate_one ''Vanilla Visa Gift Card'' (\<lambda>i. 7)
       = Inr \<lparr>valid = True, accuracy = 100, card_name = ''Vanilla Visa Gift Card'',
              voucher = ''4777777777777778'', pin = ''7777''\<rparr>"
    by code_simp
  from generate_then_validate [OF k, of "\<lambda>i. 7"] k l e show ?thesis
    by (elim exE conjE) (simp only: sum.inject, blast)
qed

subsection \<open>C2: the scoring formula\<close>

text \<open>
  Claim C2. For a known product, a result that \<open>validate_format\<close> returns has the
  accuracy 100 less 50 when the voucher does not match its pattern, less 40 when the PIN
  does not match its pattern, less 10 when the format requires the checksum and
  \<open>luhn_ok\<close> is false, floored at 0; the accuracy lies between 0 and 100; and
  \<open>valid\<close> is the conjunction of the two matches and of "no checksum required or
  \<open>luhn_ok\<close>".
\<close>

theorem validate_format_scoring:
  assumes "GIFTCARDS name = Some cfg"
    and "validate_format name v p = Inr r"
  shows "\<exists>luhn_ok. luhn_ok_of cfg v = Inr luhn_ok \<and>
           accuracy r = max 0 (100 - (if re_match (voucher_regex cfg) v then 0 else 50)
                                   - (if re_match (pin_regex cfg) p then 0 else 40)
                                   - (if luhn cfg \<and> \<not> luhn_ok then 10 else 0)) \<and>
           0 \<le> accuracy r \<and> accuracy r \<le> 100 \<and>
           valid r = (re_match (voucher_regex cfg) v \<and> re_match (pin_regex cfg) p \<and>
                      (\<not> luhn cfg \<or> luhn_ok))"
proof -
  from assms obtain ok where ok: "luhn_ok_of cfg v = Inr ok"
    and r: "r = score cfg (re_match (voucher_regex cfg) v) (re_match (pin_regex cfg) p) ok"
    by (auto simp: validate_format_known bind_eq_Inr)
  show ?thesis
    unfolding r using ok by (simp add: accuracy_score valid_score)
qed

theorem validate_format_scoring_witness:
  "\<exists>cfg r. GIFTCARDS ''Vanilla Visa Gift Card'' = Some cfg \<and>
     r = \<lparr>valid = False, accuracy = 50\<rparr> \<and>
     validate_format ''Vanilla Visa Gift Card'' ''4111111111111112'' ''12'' = Inr r \<and>
     (\<exists>luhn_ok. luhn_ok_of cfg ''4111111111111112'' = Inr luhn_ok \<and>
        accuracy r = max 0 (100 - (if re_match (voucher_regex cfg) ''4111111111111112'' then 0 else 50)
                                - (if re_match (pin_regex cfg) ''12'' then 0 else 40)
                                - (if luhn cfg \<and> \<not> luhn_ok then 10 else 0)) \<and>
        0 \<le> accuracy r \<and> accuracy r \<le> 100 \<and>
        valid r = (re_match (voucher_regex cfg) ''4111111111111112'' \<and>
                   re_match (pin_regex cfg) ''12'' \<and> (\<not> luhn cfg \<or> luhn_ok)))"
proof -
  obtain cfg where k: "GIFTCARDS ''Vanilla Visa Gift Card'' = Some cfg"
    by (simp add: GIFTCARDS_def GIFTCARDS_items_def)
  have v: "validate_format ''Vanilla Visa Gift Card'' ''4111111111111112'' ''12''
             = Inr \<lparr>valid = False, accuracy = 50\<rparr>"
    by code_simp
  from validate_format_scoring [OF k v] k v show ?thesis
    by blast
qed

subsection \<open>C3: no checksum away from length 16\<close>

text \<open>
  Claim C3. For a product that requires the checksum and a voucher whose length is not
  16, \<open>luhn_ok\<close> stays true: validation returns, \<open>valid\<close> is the conjunction of the two
  pattern matches alone, and the accuracy loses nothing for the checksum.
\<close>

theorem checksum_skipped_unless_16:
  assumes "GIFTCARDS name = Some cfg" and "luhn cfg" and "length v \<noteq> 16"
  shows "luhn_ok_of cfg v = Inr True \<and>
         (\<exists>r. validate_format name v p = Inr r \<and>
            valid r = (re_match (voucher_regex cfg) v \<and> re_match (pin_regex cfg) p) \<and>
            accuracy r = 100 - (if re_match (voucher_regex cfg) v then 0 else 50)
                             - (if re_match (pin_regex cfg) p then 0 else 40))"
  using assms
  by (simp add: validate_format_known luhn_ok_of_skipped accuracy_score valid_score)

theorem checksum_skipped_unless_16_witness:
  "\<exists>cfg. GIFTCARDS ''Visa Prepaid Gift Card'' = Some cfg \<and> luhn cfg \<and>
     length ''411111111111111'' \<noteq> (16::nat) \<and>
     luhn_ok_of cfg ''411111111111111'' = Inr True \<and>
     (\<exists>r. validate_format ''Visa Prepaid Gift Card'' ''411111111111111'' ''1234'' = Inr r \<and>
        valid r = (re_match (voucher_regex cfg) ''411111111111111'' \<and> re_match (pin_regex cfg) ''1234'') \<and>
        accuracy r = 100 - (if re_match (voucher_regex cfg) ''411111111111111'' then 0 else 50)
                         - (if re_match (pin_regex cfg) ''1234'' then 0 else 40))"
proof -
  obtain cfg where k: "GIFTCARDS ''Visa Prepaid Gift Card'' = Some cfg" and l: "luhn cfg"
    by (simp add: GIFTCARDS_def GIFTCARDS_items_def)
  have n: "length ''411111111111111'' \<noteq> (16::nat)"
    by simp
  from checksum_skipped_unless_16 [OF k l n, of "''1234''"] k l n show ?thesis
    by blast
qed

subsection \<open>C4: which vouchers have their check digit verified\<close>

text \<open>
  Claim C4 says that every voucher of length at least 15 has its check digit verified.
  The voucher \<^verbatim>\<open>411111111111111\<close> has 15 digits, the check digit recomputed over it
  with the last digit replaced by \<^verbatim>\<open>0\<close> is 6 and its last digit is 1, yet its
  accuracy is 50: only the pattern mismatch is charged. A failed checksum costs 10 more,
  as the 16-digit voucher \<^verbatim>\<open>4111111111111112\<close> shows.
\<close>

theorem luhn_not_checked_at_15_counterexample:
  "length ''411111111111111'' = (15::nat) \<and>
   luhn_checksum (butlast ''411111111111111'' @ ''0'') = Inr 6 \<and>
   int_of_char (last ''411111111111111'') = Inr 1 \<and>
   validate_format ''Vanilla Visa Gift Card'' ''411111111111111'' ''123''
     = Inr \<lparr>valid = False, accuracy = 50\<rparr> \<and>
   validate_format ''Vanilla Visa Gift Card'' ''4111111111111112'' ''123''
     = Inr \<lparr>valid = False, accuracy = 90\<rparr>"
  by code_simp

text \<open>
  Claim C4, amended. For a product that requires the checksum, a voucher of exactly 16
  digits has its check digit recomputed over the voucher with its last digit replaced by
  \<^verbatim>\<open>0\<close> and compared with its last digit, and the outcome is the \<open>luhn_ok\<close> that
  is scored; a voucher of any other length, shorter or longer, is scored with
  \<open>luhn_ok\<close> true.
\<close>

theorem luhn_checked_exactly_at_16:
  assumes "GIFTCARDS name = Some cfg" and "luhn cfg"
  shows "(length v = 16 \<and> list_all is_digit v \<longrightarrow>
            (\<exists>expected d. luhn_checksum (butlast v @ ''0'') = Inr expected \<and>
               int_of_char (last v) = Inr d \<and>
               luhn_ok_of cfg v = Inr (d = expected) \<and>
               validate_format name v p
                 = Inr (score cfg (re_match (voucher_regex cfg) v) (re_match (pin_regex cfg) p)
                          (d = expected)))) \<and>
         (length v \<noteq> 16 \<longrightarrow>
            luhn_ok_of cfg v = Inr True \<and>
            validate_format name v p
              = Inr (score cfg (re_match (voucher_regex cfg) v) (re_match (pin_regex cfg) p) True))"
proof (intro conjI impI)
  assume v: "length v = 16 \<and> list_all is_digit v"
  then have ne: "v \<noteq> []"
    by (cases v) simp_all
  from v have b: "list_all is_digit (butlast v @ ''0'')"
    by (simp add: digits_butlast is_digit_zero)
  from luhn_checksum_digits [OF b] obtain expected
    where e: "luhn_checksum (butlast v @ ''0'') = Inr expected"
    by blast
  from v ne int_of_char_digit [OF digits_last] obtain d where d: "int_of_char (last v) = Inr d"
    by blast
  from v have ok: "luhn_ok_of cfg v = Inr (d = expected)"
    by (simp add: luhn_ok_of_16 [OF assms(2) _ e d])
  have "validate_format name v p
          = Inr (score cfg (re_match (voucher_regex cfg) v) (re_match (pin_regex cfg) p)
                   (d = expected))"
    by (simp add: validate_format_known [OF assms(1)] ok)
  with e d ok show "\<exists>expected d. luhn_checksum (butlast v @ ''0'') = Inr expected \<and>
               int_of_char (last v) = Inr d \<and>
               luhn_ok_of cfg v = Inr (d = expected) \<and>
               validate_format name v p
                 = Inr (score cfg (re_match (voucher_regex cfg) v) (re_match (pin_regex cfg) p)
                          (d = expected))"
    by blast
next
  assume "length v \<noteq> 16"
  then show "luhn_ok_of cfg v = Inr True"
    by (rule luhn_ok_of_skipped)
next
  assume "length v \<noteq> 16"
  then show "validate_format name v p
              = Inr (score cfg (re_match (voucher_regex cfg) v) (re_match (pin_regex cfg) p) True)"
    by (simp add: validate_format_known [OF assms(1)] luhn_ok_of_skipped)
qed

theorem luhn_checked_exactly_at_16_witness:
  "\<exists>cfg. GIFTCARDS ''Mastercard Prepaid Gift Card'' = Some cfg \<and> luhn cfg \<and>
     length ''5111111111111112'' = (16::nat) \<and> list_all is_digit ''5111111111111112'' \<and>
     (\<exists>expected d. luhn_checksum (butlast ''5111111111111112'' @ ''0'') = Inr expected \<and>
        int_of_char (last ''5111111111111112'') = Inr d \<and>
        luhn_ok_of cfg ''5111111111111112'' = Inr (d = expected)) \<and>
     length ''51111111111111123'' \<noteq> (16::nat) \<and>
     luhn_ok_of cfg ''51111111111111123'' = Inr True"
proof -
  obtain cfg where k: "GIFTCARDS ''Mastercard Prepaid Gift Card'' = Some cfg" and l: "luhn cfg"
    by (simp add: GIFTCARDS_def GIFTCARDS_items_def)
  have a: "length ''5111111111111112'' = (16::nat) \<and> list_all is_digit ''5111111111111112''"
    by (simp add: is_digit_def digit_chars_def)
  have b: "length ''51111111111111123'' \<noteq> (16::nat)"
    by simp
  from luhn_checked_exactly_at_16 [OF k l, of "''5111111111111112''" "''1''"]
    luhn_checked_exactly_at_16 [OF k l, of "''51111111111111123''" "''1''"] k l a b
  show ?thesis
    by blast
qed

subsection \<open>C5: the Costco scenario\<close>

text \<open>
  Claim C5 expects \<open>valid = False\<close> and accuracy 50 for the voucher
  \<^verbatim>\<open>6041234567890123456\<close>; \<open>validate_format\<close> returns something else.
\<close>

theorem costco_scenario_counterexample:
  "validate_format ''Costco Shop Card'' ''6041234567890123456'' ''9876''
     \<noteq> Inr \<lparr>valid = False, accuracy = 50\<rparr>"
  by code_simp

text \<open>
  Claim C5, amended. The voucher \<^verbatim>\<open>6041234567890123456\<close> has 19 digits, so it matches
  the 19-digit pattern of "Costco Shop Card"; the PIN \<^verbatim>\<open>9876\<close> matches too, no checksum
  is required, and validation returns \<open>valid = True\<close> with accuracy 100.
\<close>

theorem costco_scenario:
  "length ''6041234567890123456'' = (19::nat) \<and>
   GIFTCARDS ''Costco Shop Card''
     = Some \<lparr>voucher_len = IntLen 19, pin_len = IntLen 4, prefix = ''60'', luhn = False,
              voucher_regex = Digits 19 19, pin_regex = Digits 4 4\<rparr> \<and>
   re_match (Digits 19 19) ''6041234567890123456'' \<and>
   re_match (Digits 4 4) ''9876'' \<and>
   validate_format ''Costco Shop Card'' ''6041234567890123456'' ''9876''
     = Inr \<lparr>valid = True, accuracy = 100\<rparr>"
  by code_simp

subsection \<open>C6: the length of a generated voucher\<close>

text \<open>
  Claim C6. For every product of the table and every sequence of draws,
  \<open>generate_one\<close> returns a card whose voucher has exactly the length chosen for the
  call: the format's single length, or the member of its tuple that the first draw picks.
\<close>

theorem generate_one_voucher_length:
  assumes "GIFTCARDS name = Some cfg"
  shows "\<exists>v_len g1 c.
           pick_len (voucher_len cfg) g = Inr (v_len, g1) \<and>
           v_len \<in> set (lens (voucher_len cfg)) \<and>
           generate_one name g = Inr c \<and>
           int (length (voucher c)) = v_len"
  using generate_one_known [OF assms, of g] by blast

theorem generate_one_voucher_length_witness:
  "\<exists>cfg. GIFTCARDS ''Target eGift Card'' = Some cfg \<and>
     generate_one ''Target eGift Card'' (\<lambda>i. i)
       = Inr \<lparr>valid = True, accuracy = 100, card_name = ''Target eGift Card'',
              voucher = ''041234567890123'', pin = ''4567''\<rparr> \<and>
     (\<exists>v_len g1 c.
        pick_len (voucher_len cfg) (\<lambda>i. i) = Inr (v_len, g1) \<and>
        v_len \<in> set (lens (voucher_len cfg)) \<and>
        generate_one ''Target eGift Card'' (\<lambda>i. i) = Inr c \<and>
        int (length (voucher c)) = v_len)"
proof -
  obtain cfg where k: "GIFTCARDS ''Target eGift Card'' = Some cfg"
    by (simp add: GIFTCARDS_def GIFTCARDS_items_def)
  have e: "generate_one ''Target eGift Card'' (\<lambda>i. i)
       = Inr \<lparr>valid = True, accuracy = 100, card_name = ''Target eGift Card'',
              voucher = ''041234567890123'', pin = ''4567''\<rparr>"
    by code_simp
  from generate_one_voucher_length [OF k, of "\<lambda>i. i"] k e show ?thesis
    by blast
qed

subsection \<open>C7: batches\<close>

text \<open>
  Claim C7. For a known product and a count from 1 to 1000, \<^verbatim>\<open>POST /generate\<close>
  returns exactly that many cards, each the result of one call of \<open>generate_one\<close>; in
  particular 1000 cards for the count 1000. The counts 0 and 1001, and every count
  outside 1 to 1000, are rejected with the validation error of the request (the spec's
  InvalidArgument). An unknown product with a count in range is rejected with the 404
  error (the spec's NotFound): the answer is the error alone, no card comes with it.
\<close>

theorem post_generate_contract:
  "(GIFTCARDS name \<noteq> None \<and> 1 \<le> n \<and> n \<le> 1000 \<longrightarrow>
      (\<exists>cards. post_generate name n seeds = Inr cards \<and> int (length cards) = n \<and>
         (\<forall>i < nat n. generate_one name (seeds i) = Inr (cards ! i)))) \<and>
   (GIFTCARDS name \<noteq> None \<longrightarrow>
      (\<exists>cards. post_generate name 1000 seeds = Inr cards \<and> length cards = 1000)) \<and>
   post_generate name 0 seeds = Inl RequestValidationError \<and>
   post_generate name 1001 seeds = Inl RequestValidationError \<and>
   (n < 1 \<or> 1000 < n \<longrightarrow> post_generate name n seeds = Inl RequestValidationError) \<and>
   (GIFTCARDS name = None \<and> 1 \<le> n \<and> n \<le> 1000 \<longrightarrow>
      post_generate name n seeds = Inl (HTTPException 404 (''Card not supported: '' @ name)))"
proof -
  have known: "\<exists>cards. post_generate name m seeds = Inr cards \<and> int (length cards) = m \<and>
         (\<forall>i < nat m. generate_one name (seeds i) = Inr (cards ! i))"
    if "GIFTCARDS name \<noteq> None" and "1 \<le> m" and "m \<le> 1000" for m
  proof -
    from that obtain cfg where "GIFTCARDS name = Some cfg"
      by blast
    with generate_cards_known [of "\<lparr>req_card_name = name, count = m\<rparr>" cfg seeds]
    obtain cards
      where "generate_cards \<lparr>req_card_name = name, count = m\<rparr> seeds = Inr cards"
        and "length cards = nat m"
        and "\<forall>i < nat m. generate_one name (seeds i) = Inr (cards ! i)"
      by auto
    with that have "post_generate name m seeds = Inr cards \<and> int (length cards) = m \<and>
         (\<forall>i < nat m. generate_one name (seeds i) = Inr (cards ! i))"
      by (simp add: post_generate_def parse_GenerateRequest_def)
    then show ?thesis ..
  qed
  have range: "post_generate name m seeds = Inl RequestValidationError"
    if "m < 1 \<or> 1000 < m" for m
    using that by (auto simp: post_generate_def parse_GenerateRequest_def)
  have unknown: "post_generate name m seeds
                   = Inl (HTTPException 404 (''Card not supported: '' @ name))"
    if "GIFTCARDS name = None" and "1 \<le> m" and "m \<le> 1000" for m
    using that by (simp add: post_generate_def parse_GenerateRequest_def generate_cards_def)
  from known [of 1000] have "GIFTCARDS name \<noteq> None \<longrightarrow>
      (\<exists>cards. post_generate name 1000 seeds = Inr cards \<and> length cards = 1000)"
    by auto
  with known [of n] range [of 0] range [of 1001] range [of n] unknown [of n] show ?thesis
    by simp
qed

theorem post_generate_contract_witness:
  "GIFTCARDS ''Walmart eGift Card'' \<noteq> None \<and> GIFTCARDS ''Walmart'' = None \<and>
   (\<exists>cards. post_generate ''Walmart eGift Card'' 3 (\<lambda>i j. i + j) = Inr cards \<and>
      int (length cards) = 3) \<and>
   (\<exists>cards. post_generate ''Walmart eGift Card'' 1000 (\<lambda>i j. i + j) = Inr cards \<and>
      length cards = 1000) \<and>
   post_generate ''Walmart eGift Card'' 0 (\<lambda>i j. i + j) = Inl RequestValidationError \<and>
   post_generate ''Walmart eGift Card'' 1001 (\<lambda>i j. i + j) = Inl RequestValidationError \<and>
   post_generate ''Walmart'' 3 (\<lambda>i j. i + j)
     = Inl (HTTPException 404 ''Card not supported: Walmart'')"
proof -
  have k: "GIFTCARDS ''Walmart eGift Card'' \<noteq> None"
    by (simp add: GIFTCARDS_def GIFTCARDS_items_def)
  have u: "GIFTCARDS ''Walmart'' = None"
    by (simp add: GIFTCARDS_def GIFTCARDS_items_def)
  have r: "(1::int) \<le> 3 \<and> (3::int) \<le> 1000"
    by simp
  note known = post_generate_contract [of "''Walmart eGift Card''" 3 "\<lambda>i j. i + j"]
  note unknown = post_generate_contract [of "''Walmart''" 3 "\<lambda>i j. i + j"]
  from known k r
  have "\<exists>cards. post_generate ''Walmart eGift Card'' 3 (\<lambda>i j. i + j) = Inr cards \<and>
          int (length cards) = 3"
    by blast
  moreover from known k
  have "\<exists>cards. post_generate ''Walmart eGift Card'' 1000 (\<lambda>i j. i + j) = Inr cards \<and>
          length cards = 1000"
    by blast
  moreover from unknown u r
  have "post_generate ''Walmart'' 3 (\<lambda>i j. i + j)
          = Inl (HTTPException 404 (''Card not supported: '' @ ''Walmart''))"
    by blast
  then have "post_generate ''Walmart'' 3 (\<lambda>i j. i + j)
          = Inl (HTTPException 404 ''Card not supported: Walmart'')"
    by simp
  moreover from known
  have "post_generate ''Walmart eGift Card'' 0 (\<lambda>i j. i + j) = Inl RequestValidationError"
    and "post_generate ''Walmart eGift Card'' 1001 (\<lambda>i j. i + j) = Inl RequestValidationError"
    by blast+
  ultimately show ?thesis
    using k u by blast
qed

subsection \<open>C8: the errors of validation\<close>

text \<open>
  Claim C8 says that validation returns a result for every voucher and PIN of a known
  product, the 404 error being its only failure. For a product that requires the
  checksum, a voucher of 16 characters that holds a character other than a digit makes
  \<^verbatim>\<open>int()\<close> raise \<^verbatim>\<open>ValueError\<close>: in \<open>luhn_checksum\<close> when the character is
  among the first 15, at \<^verbatim>\<open>int(voucher[-1])\<close> when it is the last.
\<close>

theorem validate_format_raises_ValueError:
  "validate_format ''Vanilla Visa Gift Card'' ''4111-1111-1111-1'' ''123'' = Inl ValueError \<and>
   validate_format ''Vanilla Visa Gift Card'' ''411111111111111x'' ''123'' = Inl ValueError"
  by code_simp

subsection \<open>C9: what the patterns match\<close>

text \<open>
  Claim C9 says that only strings of digits of a declared length match. A string of 19
  digits followed by a newline has 20 characters, one of them no digit, and matches
  \<^verbatim>\<open>^\d{19}$\<close>; with a PIN of the same shape it validates with accuracy 100.
\<close>

theorem re_match_accepts_final_newline:
  "length (''6041234567890123456'' @ [CHR 0x0A]) = 20 \<and>
   \<not> list_all is_digit (''6041234567890123456'' @ [CHR 0x0A]) \<and>
   re_match (Digits 19 19) (''6041234567890123456'' @ [CHR 0x0A]) \<and>
   re_match (Digits 4 4) (''9876'' @ [CHR 0x0A]) \<and>
   validate_format ''Costco Shop Card'' (''6041234567890123456'' @ [CHR 0x0A]) (''9876'' @ [CHR 0x0A])
     = Inr \<lparr>valid = True, accuracy = 100\<rparr>"
  by code_simp

subsection \<open>C10: valid means full accuracy\<close>

text \<open>
  Claim C10. In every result returned for a known product, \<open>valid\<close> holds exactly when
  the accuracy is 100.
\<close>

theorem valid_iff_full_accuracy:
  assumes "GIFTCARDS name = Some cfg"
    and "validate_format name v p = Inr r"
  shows "valid r \<longleftrightarrow> accuracy r = 100"
proof -
  from assms obtain ok where
    r: "r = score cfg (re_match (voucher_regex cfg) v) (re_match (pin_regex cfg) p) ok"
    by (auto simp: validate_format_known bind_eq_Inr)
  show ?thesis
    unfolding r by (simp add: accuracy_score valid_score)
qed

theorem valid_iff_full_accuracy_witness:
  "\<exists>cfg. GIFTCARDS ''OneVanilla Prepaid'' = Some cfg \<and>
     validate_format ''OneVanilla Prepaid'' ''4111111111111111'' ''123''
       = Inr \<lparr>valid = True, accuracy = 100\<rparr> \<and>
     (valid \<lparr>valid = True, accuracy = 100\<rparr> \<longleftrightarrow> accuracy \<lparr>valid = True, accuracy = 100\<rparr> = 100)"
proof -
  obtain cfg where k: "GIFTCARDS ''OneVanilla Prepaid'' = Some cfg"
    by (simp add: GIFTCARDS_def GIFTCARDS_items_def)
  have v: "validate_format ''OneVanilla Prepaid'' ''4111111111111111'' ''123''
             = Inr \<lparr>valid = True, accuracy = 100\<rparr>"
    by code_simp
  from valid_iff_full_accuracy [OF k v] k v show ?thesis
    by blast
qed

end
